theory Spec2Isabelle
  imports Complex_Main
begin

section \<open>Single-phase AC power analyzer: the embedding\<close>

text \<open>
  The program \<^verbatim>\<open>power_analyzer.py\<close> has two functions, \<^verbatim>\<open>calculate_power\<close> and
  \<^verbatim>\<open>plot_waveforms\<close>, and a console script that calls them with four numbers read
  by \<^verbatim>\<open>float(input(...))\<close>.

  Numbers. Every number of the program is a Python \<^verbatim>\<open>float\<close>. The embedding reads a
  float as the real number it stands for and the value of every arithmetic operation as
  the exact value on \<^typ>\<open>real\<close>. What the binary format does to a value is therefore
  outside the model: rounding error, a product that underflows to zero or overflows to
  infinity, infinities and NaN as inputs. Every theorem below is a statement about the
  program in exact arithmetic.

  Errors. A Python exception is a value of \<open>py_error\<close>; a function that can raise
  returns \<open>py_error + 'a\<close>, with \<open>Inl\<close> for the exception. On finite floats the
  operations of the program raise in four ways, and each is a branch of the model: the
  \<^verbatim>\<open>raise ValueError\<close> of the guard, \<^verbatim>\<open>math.sqrt\<close> and \<^verbatim>\<open>math.acos\<close> outside their
  domains, the division \<^verbatim>\<open>/\<close> by zero, and the power \<^verbatim>\<open>**\<close> whose result is too large
  for a float. Multiplication, addition, subtraction, \<^verbatim>\<open>math.tan\<close>, \<^verbatim>\<open>math.degrees\<close>
  and \<^verbatim>\<open>round\<close> with a number of digits do not raise.
\<close>

subsection \<open>Python primitives the program uses\<close>

datatype py_error = ValueError | ZeroDivisionError | OverflowError

text \<open>\<^verbatim>\<open>math.sqrt(x)\<close> raises \<^verbatim>\<open>ValueError\<close> (math domain error) for negative \<open>x\<close>.\<close>

definition math_sqrt :: "real \<Rightarrow> py_error + real" where
  "math_sqrt x = (if x < 0 then Inl ValueError else Inr (sqrt x))"

text \<open>\<^verbatim>\<open>math.acos(x)\<close> raises \<^verbatim>\<open>ValueError\<close> outside \<open>[-1, 1]\<close>.\<close>

definition math_acos :: "real \<Rightarrow> py_error + real" where
  "math_acos x = (if x < - 1 \<or> 1 < x then Inl ValueError else Inr (arccos x))"

text \<open>\<^verbatim>\<open>math.degrees(x)\<close> multiplies by the constant \<open>180 / pi\<close>.\<close>

definition math_degrees :: "real \<Rightarrow> real" where
  "math_degrees x = x * (180 / pi)"

text \<open>
  The largest finite float is \<open>2 ^ 1024 - 2 ^ 971\<close>. A result is rounded to the nearest
  float, and from \<open>2 ^ 1024 - 2 ^ 970\<close> on, half way between the largest float and
  \<open>2 ^ 1024\<close>, it is too large for one.
\<close>

definition float_overflows :: "real \<Rightarrow> bool" where
  "float_overflows r \<longleftrightarrow> 2 ^ 1024 - 2 ^ 970 \<le> \<bar>r\<bar>"

text \<open>
  The power \<^verbatim>\<open>x ** n\<close> of a float and a non-negative integer raises
  \<^verbatim>\<open>OverflowError\<close> when the result is too large for a float.
\<close>

definition py_pow :: "real \<Rightarrow> nat \<Rightarrow> py_error + real" where
  "py_pow x n = (if float_overflows (x ^ n) then Inl OverflowError else Inr (x ^ n))"

text \<open>The division \<^verbatim>\<open>a / b\<close> of two floats raises \<^verbatim>\<open>ZeroDivisionError\<close> when \<open>b\<close> is zero.\<close>

definition py_truediv :: "real \<Rightarrow> real \<Rightarrow> py_error + real" where
  "py_truediv a b = (if b = 0 then Inl ZeroDivisionError else Inr (a / b))"

text \<open>
  \<^verbatim>\<open>round(x, ndigits)\<close>: the multiple of \<open>10 ^ -ndigits\<close> nearest to \<open>x\<close>; a value
  exactly half way between two of them goes to the one with the even last digit.
  Python decides this on the binary value the float holds, the model on the real number:
  the two agree wherever the decimal in question is held exactly, as 0.375 is.
\<close>

definition py_round :: "real \<Rightarrow> nat \<Rightarrow> real" where
  "py_round x ndigits =
     (let y = x * 10 ^ ndigits;
          n = \<lfloor>y\<rfloor>;
          d = y - of_int n
      in of_int (if d < 1 / 2 then n
                 else if 1 / 2 < d then n + 1
                 else if even n then n else n + 1) / 10 ^ ndigits)"

subsection \<open>\<^verbatim>\<open>calculate_power\<close>\<close>

text \<open>
  The dictionary \<^verbatim>\<open>calculate_power\<close> returns has the fixed keys \<^verbatim>\<open>'S'\<close>, \<^verbatim>\<open>'P'\<close>,
  \<^verbatim>\<open>'Q'\<close>, \<^verbatim>\<open>'theta_deg'\<close>, \<^verbatim>\<open>'pf'\<close> and \<^verbatim>\<open>'required_C'\<close>: a record, one field per key.
  The spec calls them apparentPowerVA, activePowerW, reactivePowerVAR, phaseAngleDegrees,
  powerFactor and requiredCapacitanceMicrofarads.
\<close>

record power_result =
  res_S :: real
  res_P :: real
  res_Q :: real
  res_theta_deg :: real
  res_pf :: real
  res_required_C :: real

text \<open>
  Lines 7 to 24 of the source: the guard on the power factor, then the local variables
  \<^verbatim>\<open>S\<close>, \<^verbatim>\<open>P\<close>, \<^verbatim>\<open>Q\<close>, \<^verbatim>\<open>theta_deg\<close> and \<^verbatim>\<open>c_microfarad\<close> as they stand when the
  \<^verbatim>\<open>return\<close> statement is reached, in this order. In line 23 Python evaluates the
  numerator, then the denominator with its power \<^verbatim>\<open>V_rms**2\<close>, then divides.
\<close>

definition calculate_power_locals ::
  "real \<Rightarrow> real \<Rightarrow> real \<Rightarrow> real \<Rightarrow> py_error + (real \<times> real \<times> real \<times> real \<times> real)" where
  "calculate_power_locals V_rms I_rms pf freq =
     (if pf \<le> 0 \<or> pf > 1 then Inl ValueError
      else
        (let S = V_rms * I_rms;
             P = S * pf
         in (case py_pow pf 2 of
               Inl e \<Rightarrow> Inl e
             | Inr pf_squared \<Rightarrow>
                (case math_sqrt (1 - pf_squared) of
                   Inl e \<Rightarrow> Inl e
                 | Inr rt \<Rightarrow>
                    (let Q = S * rt
                     in (case math_acos pf of
                           Inl e \<Rightarrow> Inl e
                         | Inr theta \<Rightarrow>
                            (let theta_deg = math_degrees theta;
                                 target_pf = 95 / 100
                             in (if pf < target_pf \<and> P > 0 then
                                   (let phi1 = theta
                                    in (case math_acos target_pf of
                                          Inl e \<Rightarrow> Inl e
                                        | Inr phi2 \<Rightarrow>
                                           (let numerator = P * (tan phi1 - tan phi2)
                                            in (case py_pow V_rms 2 of
                                                  Inl e \<Rightarrow> Inl e
                                                | Inr V_squared \<Rightarrow>
                                                   (case py_truediv numerator
                                                           (2 * pi * freq * V_squared) of
                                                      Inl e \<Rightarrow> Inl e
                                                    | Inr C \<Rightarrow>
                                                        Inr (S, P, Q, theta_deg,
                                                             C * 1000000))))))
                                 else Inr (S, P, Q, theta_deg, 0)))))))))"

text \<open>Lines 26 to 33: the returned dictionary, built from the local variables.\<close>

definition calculate_power :: "real \<Rightarrow> real \<Rightarrow> real \<Rightarrow> real \<Rightarrow> py_error + power_result" where
  "calculate_power V_rms I_rms pf freq =
     (case calculate_power_locals V_rms I_rms pf freq of
        Inl e \<Rightarrow> Inl e
      | Inr (S, P, Q, theta_deg, c_microfarad) \<Rightarrow>
          Inr \<lparr> res_S = py_round S 2,
                res_P = py_round P 2,
                res_Q = (if pf < 1 then py_round Q 2 else 0),
                res_theta_deg = py_round theta_deg 2,
                res_pf = pf,
                res_required_C = py_round c_microfarad 2 \<rparr>)"

subsection \<open>\<^verbatim>\<open>plot_waveforms\<close>\<close>

text \<open>
  \<^verbatim>\<open>np.linspace(start, stop, num)\<close>: \<open>num\<close> evenly spaced samples from \<open>start\<close> to
  \<open>stop\<close>, both included.
\<close>

definition linspace :: "real \<Rightarrow> real \<Rightarrow> nat \<Rightarrow> real list" where
  "linspace start stop num =
     map (\<lambda>k. start + real k * ((stop - start) / real (num - 1))) [0..<num]"

text \<open>
  What \<^verbatim>\<open>plot_waveforms\<close> computes and hands to the plotting library: the three
  series of the first plot, the vectors of the phasor diagram and the scale factor as
  the legend shows it, rounded to one decimal. Drawing itself is an effect outside the
  model.
\<close>

record plot_data =
  plot_t_ms :: "real list"
  plot_v :: "real list"
  plot_i :: "real list"
  plot_v_len :: real
  plot_scale_factor :: real
  plot_scale_shown :: real
  plot_curr_x :: real
  plot_curr_y :: real
  plot_limit :: real

text \<open>
  Lines 37 to 73, in the order the source evaluates them: \<^verbatim>\<open>cycles/freq\<close> (line 37),
  \<^verbatim>\<open>math.acos(pf)\<close> (line 40), the two series (lines 41, 42), the scale factor
  \<^verbatim>\<open>(v_len / I_rms) * 0.7\<close> (line 59), the current vector (lines 66, 67), the legend's
  \<^verbatim>\<open>round(scale_factor, 1)\<close> (line 70) and the axis limit (line 73).
\<close>

definition plot_waveforms ::
  "real \<Rightarrow> real \<Rightarrow> real \<Rightarrow> real \<Rightarrow> real \<Rightarrow> py_error + plot_data" where
  "plot_waveforms V_rms I_rms pf freq cycles =
     (case py_truediv cycles freq of
        Inl e \<Rightarrow> Inl e
      | Inr stop \<Rightarrow>
         (let t = linspace 0 stop 1000;
              omega = 2 * pi * freq
          in (case math_acos pf of
                Inl e \<Rightarrow> Inl e
              | Inr theta \<Rightarrow>
                 (let v = map (\<lambda>x. V_rms * sqrt 2 * sin (omega * x)) t;
                      i = map (\<lambda>x. I_rms * sqrt 2 * sin (omega * x - theta)) t;
                      v_len = V_rms
                  in (case py_truediv v_len I_rms of
                        Inl e \<Rightarrow> Inl e
                      | Inr ratio \<Rightarrow>
                         (let scale_factor = ratio * (7 / 10);
                              curr_x = (I_rms * cos theta) * scale_factor;
                              curr_y = (I_rms * sin (- theta)) * scale_factor;
                              limit = v_len * (13 / 10)
                          in Inr \<lparr> plot_t_ms = map (\<lambda>x. x * 1000) t,
                                   plot_v = v,
                                   plot_i = i,
                                   plot_v_len = v_len,
                                   plot_scale_factor = scale_factor,
                                   plot_scale_shown = py_round scale_factor 1,
                                   plot_curr_x = curr_x,
                                   plot_curr_y = curr_y,
                                   plot_limit = limit \<rparr>))))))"

subsection \<open>The formulas of the specification\<close>

text \<open>
  The quantities as section 4.1 of the specification writes them, kept apart from the
  program's text so that the two can be compared. \<open>spec_C\<close> is the capacitance in
  farads; the target power factor is fixed at 0.95.
\<close>

definition spec_S :: "real \<Rightarrow> real \<Rightarrow> real" where
  "spec_S voltageRms currentRms = voltageRms * currentRms"

definition spec_P :: "real \<Rightarrow> real \<Rightarrow> real \<Rightarrow> real" where
  "spec_P voltageRms currentRms powerFactor = spec_S voltageRms currentRms * powerFactor"

definition spec_Q :: "real \<Rightarrow> real \<Rightarrow> real \<Rightarrow> real" where
  "spec_Q voltageRms currentRms powerFactor =
     spec_S voltageRms currentRms * sqrt (1 - powerFactor\<^sup>2)"

definition spec_theta :: "real \<Rightarrow> real" where
  "spec_theta powerFactor = arccos powerFactor"

definition spec_thetaDeg :: "real \<Rightarrow> real" where
  "spec_thetaDeg powerFactor = spec_theta powerFactor * 180 / pi"

definition spec_C :: "real \<Rightarrow> real \<Rightarrow> real \<Rightarrow> real \<Rightarrow> real" where
  "spec_C voltageRms currentRms powerFactor frequencyHz =
     spec_P voltageRms currentRms powerFactor
       * (tan (spec_theta powerFactor) - tan (arccos (95 / 100)))
       / (2 * pi * frequencyHz * voltageRms\<^sup>2)"

definition spec_requiredCapacitanceMicrofarads :: "real \<Rightarrow> real \<Rightarrow> real \<Rightarrow> real \<Rightarrow> real" where
  "spec_requiredCapacitanceMicrofarads voltageRms currentRms powerFactor frequencyHz =
     (if powerFactor < 95 / 100 \<and> 0 < spec_P voltageRms currentRms powerFactor
      then spec_C voltageRms currentRms powerFactor frequencyHz * 1000000
      else 0)"

text \<open>
  \<open>y\<close> is \<open>x\<close> rounded to two decimal places: a whole number of hundredths, at most
  half a hundredth away from \<open>x\<close>.
\<close>

definition rounded_2dp :: "real \<Rightarrow> real \<Rightarrow> bool" where
  "rounded_2dp x y \<longleftrightarrow> y * 100 \<in> \<int> \<and> \<bar>y - x\<bar> \<le> 1 / 200"

section \<open>Rounding to a number of decimals\<close>

text \<open>
  \<open>py_round x n\<close> is \<open>k / 10 ^ n\<close> for an integer \<open>k\<close> at distance at most one half from
  \<open>x * 10 ^ n\<close>, and an even one when the distance is exactly one half. Everything else
  about rounding follows from this.
\<close>

lemma py_round_cases:
  obtains k :: int where
    "py_round x n = of_int k / 10 ^ n"
    "\<bar>of_int k - x * 10 ^ n\<bar> \<le> 1 / 2"
    "\<bar>of_int k - x * 10 ^ n\<bar> = 1 / 2 \<longrightarrow> even k"
proof -
  define y where "y = x * 10 ^ n"
  define m where "m = \<lfloor>y\<rfloor>"
  define d where "d = y - of_int m"
  have d0: "0 \<le> d" and d1: "d < 1"
    unfolding d_def m_def by linarith+
  define k where "k = (if d < 1 / 2 then m else if 1 / 2 < d then m + 1 else if even m then m else m + 1)"
  have r: "py_round x n = of_int k / 10 ^ n"
    by (simp add: py_round_def Let_def k_def d_def m_def y_def)
  have yk: "of_int k - y = (if d < 1 / 2 then - d else if 1 / 2 < d then 1 - d else if even m then - d else 1 - d)"
    by (simp add: k_def d_def)
  have b: "\<bar>of_int k - y\<bar> \<le> 1 / 2"
    unfolding yk using d0 d1 by (auto simp: abs_if)
  have e: "\<bar>of_int k - y\<bar> = 1 / 2 \<longrightarrow> even k"
    unfolding yk using d0 d1 by (auto simp: abs_if k_def)
  show thesis
    using that [of k] r b e unfolding y_def by blast
qed

lemma py_round_pos_iff: "0 < py_round x n \<longleftrightarrow> 1 / 2 < x * 10 ^ n"
proof -
  obtain k :: int where k: "py_round x n = of_int k / 10 ^ n"
    "\<bar>of_int k - x * 10 ^ n\<bar> \<le> 1 / 2"
    "\<bar>of_int k - x * 10 ^ n\<bar> = 1 / 2 \<longrightarrow> even k"
    by (rule py_round_cases)
  have "0 < py_round x n \<longleftrightarrow> 0 < k"
    by (simp add: k(1) zero_less_divide_iff)
  also have "\<dots> \<longleftrightarrow> 1 / 2 < x * 10 ^ n"
  proof
    assume "0 < k"
    then have k1: "1 \<le> k" by simp
    then have "(1::real) \<le> of_int k" by linarith
    with k(2) have ge: "1 / 2 \<le> x * 10 ^ n" by linarith
    show "1 / 2 < x * 10 ^ n"
    proof (rule ccontr)
      assume "\<not> 1 / 2 < x * 10 ^ n"
      with ge have eq: "x * 10 ^ n = 1 / 2" by simp
      with k(2) k1 have "k = 1" by (simp add: abs_if split: if_splits)
      with eq k(3) show False by simp
    qed
  next
    assume "1 / 2 < x * 10 ^ n"
    with k(2) have "(0::real) < of_int k" by linarith
    then show "0 < k" by simp
  qed
  finally show ?thesis .
qed

lemma py_round_neg_iff: "py_round x n < 0 \<longleftrightarrow> x * 10 ^ n < - (1 / 2)"
proof -
  obtain k :: int where k: "py_round x n = of_int k / 10 ^ n"
    "\<bar>of_int k - x * 10 ^ n\<bar> \<le> 1 / 2"
    "\<bar>of_int k - x * 10 ^ n\<bar> = 1 / 2 \<longrightarrow> even k"
    by (rule py_round_cases)
  have "py_round x n < 0 \<longleftrightarrow> k < 0"
    by (simp add: k(1) divide_less_0_iff)
  also have "\<dots> \<longleftrightarrow> x * 10 ^ n < - (1 / 2)"
  proof
    assume "k < 0"
    then have k1: "k \<le> - 1" by simp
    then have "of_int k \<le> (- 1::real)" by linarith
    with k(2) have ge: "x * 10 ^ n \<le> - (1 / 2)" by linarith
    show "x * 10 ^ n < - (1 / 2)"
    proof (rule ccontr)
      assume "\<not> x * 10 ^ n < - (1 / 2)"
      with ge have eq: "x * 10 ^ n = - (1 / 2)" by simp
      with k(2) k1 have "k = - 1" by (simp add: abs_if split: if_splits)
      with eq k(3) show False by simp
    qed
  next
    assume "x * 10 ^ n < - (1 / 2)"
    with k(2) have "of_int k < (0::real)" by linarith
    then show "k < 0" by simp
  qed
  finally show ?thesis .
qed

lemma py_round_zero_iff: "py_round x n = 0 \<longleftrightarrow> \<bar>x * 10 ^ n\<bar> \<le> 1 / 2"
  using py_round_pos_iff [of x n] py_round_neg_iff [of x n] by (auto simp: abs_if)

lemma py_round_error: "\<bar>py_round x n - x\<bar> \<le> 1 / (2 * 10 ^ n)"
proof -
  obtain k :: int where k: "py_round x n = of_int k / 10 ^ n"
    "\<bar>of_int k - x * 10 ^ n\<bar> \<le> 1 / 2"
    by (rule py_round_cases)
  have "py_round x n - x = (of_int k - x * 10 ^ n) / 10 ^ n"
    by (simp add: k(1) field_simps)
  then have "\<bar>py_round x n - x\<bar> = \<bar>of_int k - x * 10 ^ n\<bar> / 10 ^ n"
    by simp
  also have "\<dots> \<le> (1 / 2) / 10 ^ n"
    using k(2) by (intro divide_right_mono) simp_all
  finally show ?thesis by simp
qed

lemma py_round_decimal: "\<exists>k::int. py_round x n = of_int k / 10 ^ n"
  using py_round_cases [of x n] by metis

lemma py_round_0: "py_round 0 n = 0"
  by (simp add: py_round_zero_iff)

lemma py_round_eqI:
  assumes "\<bar>x * 10 ^ n - of_int k\<bar> < 1 / 2"
  shows "py_round x n = of_int k / 10 ^ n"
proof -
  obtain j :: int where j: "py_round x n = of_int j / 10 ^ n"
    "\<bar>of_int j - x * 10 ^ n\<bar> \<le> 1 / 2"
    by (rule py_round_cases)
  from assms j(2) have "\<bar>(of_int j :: real) - of_int k\<bar> < 1" by linarith
  then have "\<bar>j - k\<bar> < 1"
    by (metis of_int_diff of_int_abs of_int_less_1_iff)
  then have "j = k" by simp
  with j(1) show ?thesis by simp
qed

lemma py_round_rounded_2dp: "rounded_2dp x (py_round x 2)"
proof -
  obtain k :: int where k: "py_round x 2 = of_int k / 10 ^ 2"
    using py_round_decimal by blast
  have "py_round x 2 * 100 = of_int k"
    by (simp add: k)
  then have "py_round x 2 * 100 \<in> \<int>"
    by simp
  moreover have "\<bar>py_round x 2 - x\<bar> \<le> 1 / 200"
    using py_round_error [of x 2] by simp
  ultimately show ?thesis
    by (simp add: rounded_2dp_def)
qed

section \<open>What \<^verbatim>\<open>calculate_power\<close> returns\<close>

lemma math_sqrt_ok: "0 \<le> x \<Longrightarrow> math_sqrt x = Inr (sqrt x)"
  by (simp add: math_sqrt_def)

lemma math_acos_ok: "- 1 \<le> x \<Longrightarrow> x \<le> 1 \<Longrightarrow> math_acos x = Inr (arccos x)"
  by (simp add: math_acos_def)

lemma one_minus_square_nonneg:
  fixes x :: real
  assumes "0 < x" "x \<le> 1"
  shows "0 \<le> 1 - x\<^sup>2"
proof -
  have "x\<^sup>2 \<le> 1\<^sup>2"
    using assms by (intro power_mono) simp_all
  then show ?thesis by simp
qed

lemma py_pow_ok: "\<not> float_overflows (x ^ n) \<Longrightarrow> py_pow x n = Inr (x ^ n)"
  by (simp add: py_pow_def)

lemma py_pow_overflow: "float_overflows (x ^ n) \<Longrightarrow> py_pow x n = Inl OverflowError"
  by (simp add: py_pow_def)

lemma float_overflows_bound: "\<bar>r\<bar> \<le> 10 ^ 300 \<Longrightarrow> \<not> float_overflows r"
proof -
  have "(10 ^ 300 :: real) < 2 ^ 1024 - 2 ^ 970"
    by simp
  then show "\<bar>r\<bar> \<le> 10 ^ 300 \<Longrightarrow> \<not> float_overflows r"
    by (simp add: float_overflows_def)
qed

lemma pf_squared_ok:
  assumes "0 < pf" "pf \<le> 1"
  shows "py_pow pf 2 = Inr (pf\<^sup>2)"
proof (rule py_pow_ok)
  have "pf\<^sup>2 \<le> 1\<^sup>2"
    using assms by (intro power_mono) simp_all
  then have "\<bar>pf\<^sup>2\<bar> \<le> 10 ^ 300"
    by simp
  then show "\<not> float_overflows (pf\<^sup>2)"
    by (rule float_overflows_bound)
qed

text \<open>
  Past the guard, \<^verbatim>\<open>pf**2\<close>, \<^verbatim>\<open>math.sqrt\<close> and \<^verbatim>\<open>math.acos\<close> cannot raise; the
  exceptions left are those of line 23, the power \<^verbatim>\<open>V_rms**2\<close> and then the division.
\<close>

lemma calculate_power_locals_accepted:
  assumes "0 < pf" "pf \<le> 1"
  shows "calculate_power_locals V_rms I_rms pf freq =
           (if pf < 95 / 100 \<and> 0 < V_rms * I_rms * pf
            then (if float_overflows (V_rms\<^sup>2) then Inl OverflowError
                  else if 2 * pi * freq * V_rms\<^sup>2 = 0 then Inl ZeroDivisionError
                  else Inr (V_rms * I_rms, V_rms * I_rms * pf,
                            V_rms * I_rms * sqrt (1 - pf\<^sup>2),
                            math_degrees (arccos pf),
                            V_rms * I_rms * pf * (tan (arccos pf) - tan (arccos (95 / 100)))
                              / (2 * pi * freq * V_rms\<^sup>2) * 1000000))
            else Inr (V_rms * I_rms, V_rms * I_rms * pf,
                      V_rms * I_rms * sqrt (1 - pf\<^sup>2),
                      math_degrees (arccos pf), 0))"
proof -
  have square: "py_pow pf 2 = Inr (pf\<^sup>2)"
    by (rule pf_squared_ok [OF assms])
  have root: "math_sqrt (1 - pf\<^sup>2) = Inr (sqrt (1 - pf\<^sup>2))"
    using assms by (intro math_sqrt_ok one_minus_square_nonneg)
  have theta: "math_acos pf = Inr (arccos pf)"
    using assms by (intro math_acos_ok) simp_all
  have phi2: "math_acos (19 / 20) = Inr (arccos (19 / 20))"
    by (intro math_acos_ok) simp_all
  show ?thesis
  proof (cases "float_overflows (V_rms\<^sup>2)")
    case True
    then show ?thesis
      using assms
      by (simp add: calculate_power_locals_def square root theta phi2 py_pow_overflow Let_def)
  next
    case False
    then show ?thesis
      using assms
      by (simp add: calculate_power_locals_def square root theta phi2 py_pow_ok
          py_truediv_def Let_def)
  qed
qed

lemma calculate_power_locals_rejected:
  "pf \<le> 0 \<or> 1 < pf \<Longrightarrow> calculate_power_locals V_rms I_rms pf freq = Inl ValueError"
  by (simp add: calculate_power_locals_def)

lemma denominator_zero_iff:
  fixes V_rms :: real
  assumes "0 < V_rms * I_rms * pf"
  shows "2 * pi * freq * V_rms\<^sup>2 = 0 \<longleftrightarrow> freq = 0"
proof -
  have "V_rms \<noteq> 0"
    using assms by auto
  then show ?thesis by simp
qed

text \<open>
  The whole function on an accepted power factor. Only the capacitor branch can raise:
  \<^verbatim>\<open>OverflowError\<close> when the square of the voltage is too large for a float, and
  otherwise \<^verbatim>\<open>ZeroDivisionError\<close> exactly when the frequency is zero.
\<close>

lemma calculate_power_accepted:
  assumes "0 < pf" "pf \<le> 1"
  shows "calculate_power V_rms I_rms pf freq =
           (if pf < 95 / 100 \<and> 0 < V_rms * I_rms * pf \<and> float_overflows (V_rms\<^sup>2)
            then Inl OverflowError
            else if pf < 95 / 100 \<and> 0 < V_rms * I_rms * pf \<and> freq = 0
            then Inl ZeroDivisionError
            else Inr \<lparr> res_S = py_round (V_rms * I_rms) 2,
                       res_P = py_round (V_rms * I_rms * pf) 2,
                       res_Q = (if pf < 1 then py_round (V_rms * I_rms * sqrt (1 - pf\<^sup>2)) 2 else 0),
                       res_theta_deg = py_round (math_degrees (arccos pf)) 2,
                       res_pf = pf,
                       res_required_C =
                         py_round (if pf < 95 / 100 \<and> 0 < V_rms * I_rms * pf
                                   then V_rms * I_rms * pf * (tan (arccos pf) - tan (arccos (95 / 100)))
                                          / (2 * pi * freq * V_rms\<^sup>2) * 1000000
                                   else 0) 2 \<rparr>)"
proof (cases "pf < 95 / 100 \<and> 0 < V_rms * I_rms * pf")
  case True
  then have "2 * pi * freq * V_rms\<^sup>2 = 0 \<longleftrightarrow> freq = 0"
    by (intro denominator_zero_iff [of V_rms I_rms pf]) simp
  with True show ?thesis
    unfolding calculate_power_def calculate_power_locals_accepted [OF assms]
    by (simp del: mult_eq_0_iff)
next
  case False
  then show ?thesis
    unfolding calculate_power_def calculate_power_locals_accepted [OF assms]
    by auto
qed

text \<open>The square of a voltage of at most \<open>10 ^ 150\<close> volts is not too large.\<close>

lemma voltage_squared_ok:
  fixes V_rms :: real
  assumes "\<bar>V_rms\<bar> \<le> 10 ^ 150"
  shows "\<not> float_overflows (V_rms\<^sup>2)"
proof (rule float_overflows_bound)
  have "\<bar>V_rms\<bar>\<^sup>2 \<le> (10 ^ 150)\<^sup>2"
    using assms by (intro power_mono) simp_all
  then show "\<bar>V_rms\<^sup>2\<bar> \<le> 10 ^ 300"
    by simp
qed


subsection \<open>The guard on the power factor\<close>

text \<open>
  Claim C1. \<^verbatim>\<open>calculate_power\<close> raises \<^verbatim>\<open>ValueError\<close> (the spec's InvalidInput) if
  and only if the power factor is at most 0 or greater than 1, and when it raises it
  returns no result record.
\<close>

theorem calculate_power_invalid_input_iff:
  "(calculate_power V_rms I_rms pf freq = Inl ValueError \<longleftrightarrow> pf \<le> 0 \<or> 1 < pf)
   \<and> (pf \<le> 0 \<or> 1 < pf \<longleftrightarrow>
        calculate_power V_rms I_rms pf freq = Inl ValueError
        \<and> (\<nexists>r. calculate_power V_rms I_rms pf freq = Inr r))"
proof -
  have raises: "calculate_power V_rms I_rms pf freq = Inl ValueError \<longleftrightarrow> pf \<le> 0 \<or> 1 < pf"
  proof (cases "pf \<le> 0 \<or> 1 < pf")
    case True
    then show ?thesis
      by (simp add: calculate_power_def calculate_power_locals_rejected)
  next
    case False
    then have "0 < pf" "pf \<le> 1" by simp_all
    from calculate_power_locals_accepted [OF this, of V_rms I_rms freq] False
    show ?thesis
      by (simp add: calculate_power_def split: if_splits)
  qed
  then show ?thesis by auto
qed

subsection \<open>The formulas\<close>

text \<open>
  Claim C2. For a power factor in \<open>(0, 1]\<close> the local variables of
  \<^verbatim>\<open>calculate_power\<close> hold exactly the quantities of the specification:
  \<open>S = voltageRms * currentRms\<close>, \<open>P = S * powerFactor\<close>,
  \<open>Q = S * sqrt (1 - powerFactor\<^sup>2)\<close>, \<open>thetaDeg = arccos powerFactor * 180 / pi\<close>, and
  the capacitance in microfarads, which is
  \<open>P * (tan (arccos powerFactor) - tan (arccos 0.95)) / (2 * pi * frequencyHz * voltageRms\<^sup>2) * 10\<^sup>6\<close>
  when \<open>powerFactor < 0.95\<close> and \<open>P > 0\<close>, and 0 otherwise; the returned fields are
  these quantities rounded to two decimals. The formulas hold modulo floating point:
  where the capacitance formula leaves the floats, the square of the voltage being too
  large, the program raises \<^verbatim>\<open>OverflowError\<close>, and where it has no value, at frequency
  0, the program raises \<^verbatim>\<open>ZeroDivisionError\<close>.
\<close>

theorem calculate_power_formulas:
  assumes "0 < pf" "pf \<le> 1"
  shows "calculate_power_locals V_rms I_rms pf freq =
           (if pf < 95 / 100 \<and> 0 < spec_P V_rms I_rms pf \<and> float_overflows (V_rms\<^sup>2)
            then Inl OverflowError
            else if pf < 95 / 100 \<and> 0 < spec_P V_rms I_rms pf \<and> freq = 0
            then Inl ZeroDivisionError
            else Inr (spec_S V_rms I_rms,
                      spec_P V_rms I_rms pf,
                      spec_Q V_rms I_rms pf,
                      spec_thetaDeg pf,
                      spec_requiredCapacitanceMicrofarads V_rms I_rms pf freq))
       \<and> calculate_power V_rms I_rms pf freq =
           (if pf < 95 / 100 \<and> 0 < spec_P V_rms I_rms pf \<and> float_overflows (V_rms\<^sup>2)
            then Inl OverflowError
            else if pf < 95 / 100 \<and> 0 < spec_P V_rms I_rms pf \<and> freq = 0
            then Inl ZeroDivisionError
            else Inr \<lparr> res_S = py_round (spec_S V_rms I_rms) 2,
                       res_P = py_round (spec_P V_rms I_rms pf) 2,
                       res_Q = py_round (spec_Q V_rms I_rms pf) 2,
                       res_theta_deg = py_round (spec_thetaDeg pf) 2,
                       res_pf = pf,
                       res_required_C =
                         py_round (spec_requiredCapacitanceMicrofarads V_rms I_rms pf freq) 2 \<rparr>)"
proof -
  have loc: "calculate_power_locals V_rms I_rms pf freq =
           (if pf < 95 / 100 \<and> 0 < spec_P V_rms I_rms pf \<and> float_overflows (V_rms\<^sup>2)
            then Inl OverflowError
            else if pf < 95 / 100 \<and> 0 < spec_P V_rms I_rms pf \<and> freq = 0
            then Inl ZeroDivisionError
            else Inr (spec_S V_rms I_rms,
                      spec_P V_rms I_rms pf,
                      spec_Q V_rms I_rms pf,
                      spec_thetaDeg pf,
                      spec_requiredCapacitanceMicrofarads V_rms I_rms pf freq))"
  proof (cases "pf < 95 / 100 \<and> 0 < V_rms * I_rms * pf")
    case True
    then have "2 * pi * freq * V_rms\<^sup>2 = 0 \<longleftrightarrow> freq = 0"
      by (intro denominator_zero_iff [of V_rms I_rms pf]) simp
    with True show ?thesis
      unfolding calculate_power_locals_accepted [OF assms]
      by (simp add: spec_S_def spec_P_def spec_Q_def spec_theta_def spec_thetaDeg_def
          spec_C_def spec_requiredCapacitanceMicrofarads_def math_degrees_def
          del: mult_eq_0_iff)
  next
    case False
    then show ?thesis
      unfolding calculate_power_locals_accepted [OF assms]
      by (auto simp add: spec_S_def spec_P_def spec_Q_def spec_theta_def spec_thetaDeg_def
          spec_requiredCapacitanceMicrofarads_def math_degrees_def)
  qed
  have unity: "py_round (spec_Q V_rms I_rms pf) 2 = 0" if "\<not> pf < 1"
  proof -
    from that assms(2) have "pf = 1" by simp
    then show ?thesis by (simp add: spec_Q_def py_round_0)
  qed
  have res: "calculate_power V_rms I_rms pf freq =
           (if pf < 95 / 100 \<and> 0 < spec_P V_rms I_rms pf \<and> float_overflows (V_rms\<^sup>2)
            then Inl OverflowError
            else if pf < 95 / 100 \<and> 0 < spec_P V_rms I_rms pf \<and> freq = 0
            then Inl ZeroDivisionError
            else Inr \<lparr> res_S = py_round (spec_S V_rms I_rms) 2,
                       res_P = py_round (spec_P V_rms I_rms pf) 2,
                       res_Q = py_round (spec_Q V_rms I_rms pf) 2,
                       res_theta_deg = py_round (spec_thetaDeg pf) 2,
                       res_pf = pf,
                       res_required_C =
                         py_round (spec_requiredCapacitanceMicrofarads V_rms I_rms pf freq) 2 \<rparr>)"
    unfolding calculate_power_def loc using unity by simp
  from loc res show ?thesis ..
qed

text \<open>
  The specification's scenario, 230 V, 5 A, power factor 0.8 at 50 Hz, meets the
  hypotheses of the theorem.
\<close>

theorem calculate_power_formulas_witness:
  "0 < (4 / 5::real) \<and> (4 / 5::real) \<le> 1
   \<and> calculate_power_locals 230 5 (4 / 5) 50
       = Inr (spec_S 230 5, spec_P 230 5 (4 / 5), spec_Q 230 5 (4 / 5), spec_thetaDeg (4 / 5),
              spec_requiredCapacitanceMicrofarads 230 5 (4 / 5) 50)
   \<and> calculate_power 230 5 (4 / 5) 50
       = Inr \<lparr> res_S = py_round (spec_S 230 5) 2,
               res_P = py_round (spec_P 230 5 (4 / 5)) 2,
               res_Q = py_round (spec_Q 230 5 (4 / 5)) 2,
               res_theta_deg = py_round (spec_thetaDeg (4 / 5)) 2,
               res_pf = 4 / 5,
               res_required_C = py_round (spec_requiredCapacitanceMicrofarads 230 5 (4 / 5) 50) 2 \<rparr>"
proof -
  have "\<not> float_overflows ((230::real)\<^sup>2)"
    by (rule voltage_squared_ok) simp
  with calculate_power_formulas [of "4 / 5" 230 5 50] show ?thesis
    by simp
qed

subsection \<open>Rounding of the returned fields\<close>

text \<open>
  Claim C8. In every record \<^verbatim>\<open>calculate_power\<close> returns, the fields \<^verbatim>\<open>S\<close>,
  \<^verbatim>\<open>P\<close>, \<^verbatim>\<open>Q\<close>, \<^verbatim>\<open>theta_deg\<close> and \<^verbatim>\<open>required_C\<close> are the local variables of
  the same names rounded to two decimal places, each a whole number of hundredths at
  most 0.005 away from the unrounded value, and the field \<^verbatim>\<open>pf\<close> is the power factor
  that was passed in, unrounded. (For \<^verbatim>\<open>Q\<close> the source returns the literal 0 when the
  power factor is 1, where the local \<^verbatim>\<open>Q\<close> is 0 as well.)
\<close>

theorem result_fields_rounded:
  assumes "calculate_power V_rms I_rms pf freq = Inr r"
  shows "\<exists>S P Q theta_deg c_microfarad.
           calculate_power_locals V_rms I_rms pf freq = Inr (S, P, Q, theta_deg, c_microfarad)
           \<and> res_S r = py_round S 2 \<and> rounded_2dp S (res_S r)
           \<and> res_P r = py_round P 2 \<and> rounded_2dp P (res_P r)
           \<and> res_Q r = py_round Q 2 \<and> rounded_2dp Q (res_Q r)
           \<and> res_theta_deg r = py_round theta_deg 2 \<and> rounded_2dp theta_deg (res_theta_deg r)
           \<and> res_required_C r = py_round c_microfarad 2
           \<and> rounded_2dp c_microfarad (res_required_C r)
           \<and> res_pf r = pf"
proof -
  from assms obtain S P Q theta_deg c_microfarad where
    loc: "calculate_power_locals V_rms I_rms pf freq = Inr (S, P, Q, theta_deg, c_microfarad)"
    by (auto simp: calculate_power_def split: sum.splits)
  from loc have acc: "0 < pf" "pf \<le> 1"
    by (auto simp: calculate_power_locals_def split: if_splits)
  have Q1: "Q = 0" if "\<not> pf < 1"
  proof -
    from that acc have "pf = 1" by simp
    with loc show ?thesis
      unfolding calculate_power_locals_accepted [OF acc]
      by (simp split: if_splits)
  qed
  have r: "r = \<lparr> res_S = py_round S 2, res_P = py_round P 2,
                 res_Q = (if pf < 1 then py_round Q 2 else 0),
                 res_theta_deg = py_round theta_deg 2, res_pf = pf,
                 res_required_C = py_round c_microfarad 2 \<rparr>"
    using assms loc by (simp add: calculate_power_def)
  have "res_Q r = py_round Q 2"
    using Q1 by (cases "pf < 1") (simp_all add: r py_round_0)
  with loc show ?thesis
    by (simp add: r py_round_rounded_2dp)
qed

text \<open>
  A run whose apparent power, 0.375 VA, sits half way between two hundredths: it is
  returned as 0.38.
\<close>

theorem result_fields_rounded_witness:
  "calculate_power 3 (1 / 8) 1 50
     = Inr \<lparr> res_S = 38 / 100, res_P = 38 / 100, res_Q = 0, res_theta_deg = 0,
             res_pf = 1, res_required_C = 0 \<rparr>
   \<and> (\<exists>S P Q theta_deg c_microfarad.
         calculate_power_locals 3 (1 / 8) 1 50 = Inr (S, P, Q, theta_deg, c_microfarad)
         \<and> (38 / 100 :: real) = py_round S 2 \<and> rounded_2dp S (38 / 100)
         \<and> (38 / 100 :: real) = py_round P 2 \<and> rounded_2dp P (38 / 100)
         \<and> (0 :: real) = py_round Q 2 \<and> rounded_2dp Q 0
         \<and> (0 :: real) = py_round theta_deg 2 \<and> rounded_2dp theta_deg 0
         \<and> (0 :: real) = py_round c_microfarad 2 \<and> rounded_2dp c_microfarad 0
         \<and> (1 :: real) = 1)"
proof -
  have c: "calculate_power 3 (1 / 8) 1 50
     = Inr \<lparr> res_S = 38 / 100, res_P = 38 / 100, res_Q = 0, res_theta_deg = 0,
             res_pf = 1, res_required_C = 0 \<rparr>"
    using calculate_power_accepted [of 1 3 "1 / 8" 50]
    by (simp add: math_degrees_def py_round_def Let_def)
  from result_fields_rounded [OF c] c show ?thesis by simp
qed

subsection \<open>No capacitor at or above the target power factor\<close>

text \<open>
  Claim C5. For every power factor in \<open>[0.95, 1]\<close>, whatever the voltage, the current
  and the frequency, \<^verbatim>\<open>calculate_power\<close> returns a record and its \<^verbatim>\<open>required_C\<close>
  is 0.
\<close>

theorem required_C_zero_at_target:
  assumes "95 / 100 \<le> pf" "pf \<le> 1"
  shows "\<exists>r. calculate_power V_rms I_rms pf freq = Inr r \<and> res_required_C r = 0"
proof -
  have "0 < pf" using assms by simp
  from calculate_power_accepted [OF this assms(2), of V_rms I_rms freq] assms(1)
  show ?thesis by (simp add: py_round_0)
qed

text \<open>
  The specification's scenario with power factor 0.96.
\<close>

theorem required_C_zero_at_target_witness:
  "95 / 100 \<le> (24 / 25 :: real) \<and> (24 / 25 :: real) \<le> 1 \<and>
   (\<exists>r. calculate_power 230 5 (24 / 25) 50 = Inr r \<and> res_required_C r = 0)"
  using required_C_zero_at_target [of "24 / 25" 230 5 50] by simp

subsection \<open>Which inputs raise\<close>







section \<open>The tangent of the phase angle\<close>


lemma tan_arccos:
  assumes "0 < x" "x \<le> 1"
  shows "tan (arccos x) = sqrt (1 - x\<^sup>2) / x"
  using assms by (simp add: tan_def sin_arccos)



lemma sqrt_9_25: "sqrt (9 / 25) = 3 / 5"
  by (rule real_sqrt_unique) (simp_all add: power2_eq_square)

lemma sqrt_16_25: "sqrt (16 / 25) = 4 / 5"
  by (rule real_sqrt_unique) (simp_all add: power2_eq_square)

lemma sqrt_49_625: "sqrt (49 / 625) = 7 / 25"
  by (rule real_sqrt_unique) (simp_all add: power2_eq_square)


lemma tan_arccos_4_5: "tan (arccos (4 / 5)) = 3 / 4"
  by (simp add: tan_arccos power2_eq_square sqrt_9_25)

lemma tan_arccos_target: "tan (arccos (19 / 20)) = sqrt 39 / 19"
proof -
  have "sqrt (39 / 400) = sqrt 39 / 20"
    by (simp add: real_sqrt_divide)
  then show ?thesis
    by (simp add: tan_arccos power2_eq_square)
qed

section \<open>The sign of the reactive power\<close>

text \<open>
  Claim C3, as amended. For a power factor in \<open>(0, 1]\<close> and a returned record: the
  reactive power \<^verbatim>\<open>Q\<close> is at least 0 when \<open>V_rms * I_rms\<close> is; it is 0 when the power
  factor is 1; and it is 0 exactly when the power factor is 1 or the unrounded value
  \<open>V_rms * I_rms * sqrt (1 - pf\<^sup>2)\<close> is at most 0.005 in absolute value, so that it rounds
  to 0.00.
\<close>

theorem reactive_power_sign:
  assumes "0 < pf" "pf \<le> 1" "calculate_power V_rms I_rms pf freq = Inr r"
  shows "(0 \<le> V_rms * I_rms \<longrightarrow> 0 \<le> res_Q r)
       \<and> (pf = 1 \<longrightarrow> res_Q r = 0)
       \<and> (res_Q r = 0 \<longleftrightarrow> pf = 1 \<or> \<bar>V_rms * I_rms * sqrt (1 - pf\<^sup>2)\<bar> \<le> 1 / 200)"
proof -
  let ?Q = "V_rms * I_rms * sqrt (1 - pf\<^sup>2)"
  have q: "res_Q r = (if pf < 1 then py_round ?Q 2 else 0)"
    using assms(3) unfolding calculate_power_accepted [OF assms(1,2)]
    by (auto split: if_splits)
  have root: "0 \<le> sqrt (1 - pf\<^sup>2)"
    using one_minus_square_nonneg [OF assms(1,2)] by simp
  have nonneg: "0 \<le> res_Q r" if "0 \<le> V_rms * I_rms"
  proof -
    from that root have "0 \<le> ?Q" by simp
    then have "\<not> ?Q * 10 ^ 2 < - (1 / 2)" by simp
    then have "\<not> py_round ?Q 2 < 0" by (simp only: py_round_neg_iff not_False_eq_True)
    then show ?thesis by (simp add: q)
  qed
  have zero: "res_Q r = 0 \<longleftrightarrow> pf = 1 \<or> \<bar>?Q\<bar> \<le> 1 / 200"
  proof (cases "pf < 1")
    case True
    have "py_round ?Q 2 = 0 \<longleftrightarrow> \<bar>?Q * 10 ^ 2\<bar> \<le> 1 / 2"
      by (rule py_round_zero_iff)
    also have "\<bar>?Q * 10 ^ 2\<bar> = 100 * \<bar>?Q\<bar>"
      by (simp add: abs_mult)
    also have "100 * \<bar>?Q\<bar> \<le> 1 / 2 \<longleftrightarrow> \<bar>?Q\<bar> \<le> 1 / 200"
      by linarith
    finally show ?thesis using True by (simp add: q)
  next
    case False
    with assms(2) have "pf = 1" by simp
    then show ?thesis by (simp add: q)
  qed
  from nonneg zero show ?thesis by (simp add: q)
qed

text \<open>
  230 V, 5 A at power factor 0.96: \<^verbatim>\<open>Q\<close> is 322 VAR, positive and not zero.
\<close>

theorem reactive_power_sign_witness:
  "0 < (24 / 25::real) \<and> (24 / 25::real) \<le> 1
   \<and> calculate_power 230 5 (24 / 25) 50
       = Inr \<lparr> res_S = 1150, res_P = 1104, res_Q = 322,
               res_theta_deg = py_round (math_degrees (arccos (24 / 25))) 2,
               res_pf = 24 / 25, res_required_C = 0 \<rparr>
   \<and> (0::real) \<le> 230 * 5 \<and> (0::real) \<le> 322
   \<and> (24 / 25::real) \<noteq> 1 \<and> (322::real) \<noteq> 0
   \<and> \<not> \<bar>230 * 5 * sqrt (1 - (24 / 25)\<^sup>2)\<bar> \<le> (1 / 200::real)"
proof -
  have r: "py_round 1150 2 = 1150" "py_round 1104 2 = 1104" "py_round 322 2 = 322"
    "py_round 0 2 = 0"
    by (simp_all add: py_round_def Let_def)
  have c: "calculate_power 230 5 (24 / 25) 50
       = Inr \<lparr> res_S = 1150, res_P = 1104, res_Q = 322,
               res_theta_deg = py_round (math_degrees (arccos (24 / 25))) 2,
               res_pf = 24 / 25, res_required_C = 0 \<rparr>"
    using calculate_power_accepted [of "24 / 25" 230 5 50]
    by (simp add: power2_eq_square sqrt_49_625 r)
  from reactive_power_sign [OF _ _ c] c show ?thesis
    by simp
qed

text \<open>
  Claim C3 as the specification states it fails twice. With a negative voltage the
  reactive power is negative: -1 V, 1 A at power factor 0.6 returns \<^verbatim>\<open>Q\<close> = -0.8. And
  a small reactive power rounds to zero below unity power factor: 0.1 V, 0.01 A at
  power factor 0.96 returns \<^verbatim>\<open>Q\<close> = 0.
\<close>

theorem reactive_power_sign_counterexample:
  "0 < (3 / 5::real) \<and> (3 / 5::real) \<le> 1
   \<and> calculate_power (- 1) 1 (3 / 5) 50
       = Inr \<lparr> res_S = - 1, res_P = - (3 / 5), res_Q = - (4 / 5),
               res_theta_deg = py_round (math_degrees (arccos (3 / 5))) 2,
               res_pf = 3 / 5, res_required_C = 0 \<rparr>
   \<and> \<not> (0::real) \<le> - (4 / 5)
   \<and> 0 < (24 / 25::real) \<and> (24 / 25::real) \<le> 1
   \<and> calculate_power (1 / 10) (1 / 100) (24 / 25) 50
       = Inr \<lparr> res_S = 0, res_P = 0, res_Q = 0,
               res_theta_deg = py_round (math_degrees (arccos (24 / 25))) 2,
               res_pf = 24 / 25, res_required_C = 0 \<rparr>
   \<and> (24 / 25::real) \<noteq> 1"
proof -
  have r1: "py_round (- 1) 2 = - 1" "py_round (- (3 / 5)) 2 = - (3 / 5)"
    "py_round (- (4 / 5)) 2 = - (4 / 5)" "py_round 0 2 = 0"
    by (simp_all add: py_round_def Let_def)
  have r2: "py_round (1 / 1000) 2 = 0" "py_round (3 / 3125) 2 = 0" "py_round (7 / 25000) 2 = 0"
    by (simp_all add: py_round_def Let_def)
  have a: "calculate_power (- 1) 1 (3 / 5) 50
       = Inr \<lparr> res_S = - 1, res_P = - (3 / 5), res_Q = - (4 / 5),
               res_theta_deg = py_round (math_degrees (arccos (3 / 5))) 2,
               res_pf = 3 / 5, res_required_C = 0 \<rparr>"
    using calculate_power_accepted [of "3 / 5" "- 1" 1 50]
    by (simp add: power2_eq_square sqrt_16_25 r1)
  have b: "calculate_power (1 / 10) (1 / 100) (24 / 25) 50
       = Inr \<lparr> res_S = 0, res_P = 0, res_Q = 0,
               res_theta_deg = py_round (math_degrees (arccos (24 / 25))) 2,
               res_pf = 24 / 25, res_required_C = 0 \<rparr>"
    using calculate_power_accepted [of "24 / 25" "1 / 10" "1 / 100" 50]
    by (simp add: power2_eq_square sqrt_49_625 r1 r2)
  show ?thesis
    unfolding a b by simp
qed

section \<open>The scenario 230 V, 5 A, power factor 0.8\<close>

text \<open>
  The phase angle \<open>arccos 0.8\<close> is \<open>2 * arctan (1 / 3)\<close>, and \<open>pi\<close> is
  \<open>4 * (arctan (1 / 2) + arctan (1 / 3))\<close>. Partial sums of the alternating series of the
  arc tangent enclose both arc tangents closely enough to fix the second decimal of the
  angle in degrees and of the capacitance.
\<close>

lemma arctan_series_bounds:
  fixes x :: real
  assumes "0 < x" "x \<le> 1"
  shows "(\<Sum>i<2 * n. (- 1) ^ i * (1 / real (i * 2 + 1) * x ^ (i * 2 + 1))) \<le> arctan x"
    and "arctan x \<le> (\<Sum>i<2 * n + 1. (- 1) ^ i * (1 / real (i * 2 + 1) * x ^ (i * 2 + 1)))"
proof -
  let ?a = "\<lambda>i. 1 / real (i * 2 + 1) * x ^ (i * 2 + 1)"
  have ab: "\<bar>x\<bar> \<le> 1" using assms by simp
  have pos: "0 < ?a 0" using assms by simp
  have "(\<Sum>i. (- 1) ^ i * ?a i) \<in> {(\<Sum>i<2 * n. (- 1) ^ i * ?a i) .. (\<Sum>i<2 * n + 1. (- 1) ^ i * ?a i)}"
    using summable_Leibniz(2) [OF zeroseq_arctan_series [OF ab] monoseq_arctan_series [OF ab]] pos
    by blast
  then show "(\<Sum>i<2 * n. (- 1) ^ i * ?a i) \<le> arctan x"
    and "arctan x \<le> (\<Sum>i<2 * n + 1. (- 1) ^ i * ?a i)"
    unfolding arctan_series [OF ab] by simp_all
qed

lemma arctan_third_bounds:
  "321745 / 1000000 \<le> arctan (1 / 3)" "arctan (1 / 3) \<le> 321752 / 1000000"
  using arctan_series_bounds [of "1 / 3" 2]
  by (simp_all add: eval_nat_numeral)

lemma arctan_half_bounds:
  "463639 / 1000000 \<le> arctan (1 / 2)" "arctan (1 / 2) \<le> 463650 / 1000000"
  using arctan_series_bounds [of "1 / 2" 3]
  by (simp_all add: eval_nat_numeral)

lemma pi_eq_arctan: "pi = 4 * (arctan (1 / 2) + arctan (1 / 3))"
proof -
  have "arctan (1 / 2) + arctan (1 / 3) = arctan ((1 / 2 + 1 / 3) / (1 - (1 / 2) * (1 / 3)))"
    by (rule arctan_add) simp_all
  also have "\<dots> = arctan 1" by simp
  finally show ?thesis by (simp add: arctan_one)
qed

lemma pi_bounds: "3141536 / 1000000 \<le> pi" "pi \<le> 3141608 / 1000000"
  unfolding pi_eq_arctan using arctan_third_bounds arctan_half_bounds by simp_all

lemma arccos_4_5: "arccos (4 / 5) = 2 * arctan (1 / 3)"
proof -
  have "2 * arctan (1 / 3) = arctan (2 * (1 / 3) / (1 - (1 / 3)\<^sup>2))"
    by (rule arctan_double) simp
  also have "\<dots> = arctan (3 / 4)"
    by (simp add: power2_eq_square)
  finally have d: "2 * arctan (1 / 3) = arctan (3 / 4)" .
  have c: "cos (arctan (3 / 4)) = 4 / 5"
  proof -
    have "cos (arctan (3 / 4)) = 1 / sqrt (1 + (3 / 4)\<^sup>2)"
      by (rule cos_arctan)
    also have "1 + (3 / 4)\<^sup>2 = (25 / 16 :: real)"
      by (simp add: power2_eq_square)
    also have "sqrt (25 / 16) = 5 / 4"
      by (rule real_sqrt_unique) (simp_all add: power2_eq_square)
    finally show ?thesis by simp
  qed
  have lo: "0 \<le> arctan (3 / 4)" by simp
  have hi: "arctan (3 / 4) \<le> pi"
    using arctan_ubound [of "3 / 4"] pi_gt_zero by linarith
  have "arccos (cos (arctan (3 / 4))) = arctan (3 / 4)"
    by (rule arccos_cos [OF lo hi])
  then have "arccos (4 / 5) = arctan (3 / 4)"
    by (simp only: c)
  with d show ?thesis by simp
qed

lemma degrees_quarter_turn: "2 * a * (180 / (4 * s)) = 90 * a / (s::real)"
  by simp

lemma theta_deg_4_5:
  "math_degrees (arccos (4 / 5)) = 90 * arctan (1 / 3) / (arctan (1 / 2) + arctan (1 / 3))"
proof -
  have "math_degrees (arccos (4 / 5)) = 2 * arctan (1 / 3) * (180 / pi)"
    by (simp only: math_degrees_def arccos_4_5)
  also have "\<dots> = 2 * arctan (1 / 3) * (180 / (4 * (arctan (1 / 2) + arctan (1 / 3))))"
    by (simp only: pi_eq_arctan [symmetric])
  also have "\<dots> = 90 * arctan (1 / 3) / (arctan (1 / 2) + arctan (1 / 3))"
    by (rule degrees_quarter_turn)
  finally show ?thesis .
qed

lemma theta_deg_4_5_bounds:
  "36865 / 1000 < math_degrees (arccos (4 / 5))"
  "math_degrees (arccos (4 / 5)) < 36875 / 1000"
proof -
  define a where "a = arctan (1 / 3)"
  define b where "b = arctan (1 / 2)"
  note A = arctan_third_bounds [folded a_def]
  note B = arctan_half_bounds [folded b_def]
  have s: "0 < b + a"
    using A(1) B(1) by simp
  have "36865 / 1000 * (b + a) < 90 * a"
    using A B by simp
  then show "36865 / 1000 < math_degrees (arccos (4 / 5))"
    unfolding theta_deg_4_5 a_def [symmetric] b_def [symmetric]
    using s by (simp add: pos_less_divide_eq)
  have "90 * a < 36875 / 1000 * (b + a)"
    using A B by simp
  then show "math_degrees (arccos (4 / 5)) < 36875 / 1000"
    unfolding theta_deg_4_5 a_def [symmetric] b_def [symmetric]
    using s by (simp add: pos_divide_less_eq)
qed

lemma theta_deg_4_5_rounded: "py_round (math_degrees (arccos (4 / 5))) 2 = 3687 / 100"
proof -
  have "\<bar>math_degrees (arccos (4 / 5)) * 10 ^ 2 - of_int 3687\<bar> < 1 / 2"
    using theta_deg_4_5_bounds by (simp add: abs_if)
  from py_round_eqI [OF this] show ?thesis by simp
qed

lemma sqrt_39_tight: "624499 / 100000 < sqrt 39" "sqrt 39 < 6245 / 1000"
  by (rule real_less_rsqrt, simp add: power2_eq_square)
     (rule real_less_lsqrt, simp_all add: power2_eq_square)

lemma capacitance_230_eq:
  "spec_requiredCapacitanceMicrofarads 230 5 (4 / 5) freq
     = 200000 / 23 * (3 / 4 - sqrt 39 / 19) / (pi * freq)"
proof -
  have arith: "230 * 5 * (4 / 5) * d / (2 * pi * freq * 230\<^sup>2) * 1000000
      = 200000 / 23 * d / (pi * freq)" for d :: real
    by (simp add: field_simps)
  have "spec_requiredCapacitanceMicrofarads 230 5 (4 / 5) freq
      = 230 * 5 * (4 / 5) * (tan (arccos (4 / 5)) - tan (arccos (95 / 100)))
          / (2 * pi * freq * 230\<^sup>2) * 1000000"
    by (simp add: spec_requiredCapacitanceMicrofarads_def spec_C_def spec_P_def spec_S_def
        spec_theta_def)
  also have "\<dots> = 200000 / 23 * (tan (arccos (4 / 5)) - tan (arccos (95 / 100))) / (pi * freq)"
    by (rule arith)
  also have "tan (arccos (4 / 5)) - tan (arccos (95 / 100)) = 3 / 4 - sqrt 39 / 19"
    using tan_arccos_target by (simp add: tan_arccos_4_5)
  finally show ?thesis .
qed

lemma capacitance_230_50_bounds:
  "23315 / 1000 < spec_requiredCapacitanceMicrofarads 230 5 (4 / 5) 50"
  "spec_requiredCapacitanceMicrofarads 230 5 (4 / 5) 50 < 23325 / 1000"
proof -
  define s where "s = sqrt 39"
  note S = sqrt_39_tight [folded s_def]
  note P = pi_bounds
  have arith: "200000 / 23 * d / (pi * 50) = 4000 / 23 * d / pi" for d :: real
    by (simp add: field_simps)
  have e: "spec_requiredCapacitanceMicrofarads 230 5 (4 / 5) 50 = 4000 / 23 * (3 / 4 - s / 19) / pi"
    unfolding capacitance_230_eq s_def by (rule arith)
  have "23315 / 1000 * pi < 4000 / 23 * (3 / 4 - s / 19)"
    using S P by simp
  then show "23315 / 1000 < spec_requiredCapacitanceMicrofarads 230 5 (4 / 5) 50"
    unfolding e by (simp add: pos_less_divide_eq)
  have "4000 / 23 * (3 / 4 - s / 19) < 23325 / 1000 * pi"
    using S P by simp
  then show "spec_requiredCapacitanceMicrofarads 230 5 (4 / 5) 50 < 23325 / 1000"
    unfolding e by (simp add: pos_divide_less_eq)
qed


lemma accepted_230_5:
  "calculate_power 230 5 (4 / 5) freq =
     (if freq = 0 then Inl ZeroDivisionError
      else Inr \<lparr> res_S = 1150, res_P = 920, res_Q = 690, res_theta_deg = 3687 / 100,
                 res_pf = 4 / 5,
                 res_required_C =
                   py_round (spec_requiredCapacitanceMicrofarads 230 5 (4 / 5) freq) 2 \<rparr>)"
proof -
  have r: "py_round 1150 2 = 1150" "py_round 920 2 = 920" "py_round 690 2 = 690"
    by (simp_all add: py_round_def Let_def)
  have c: "spec_requiredCapacitanceMicrofarads 230 5 (4 / 5) freq
      = 230 * 5 * (4 / 5) * (tan (arccos (4 / 5)) - tan (arccos (95 / 100)))
          / (2 * pi * freq * 230\<^sup>2) * 1000000"
    by (simp add: spec_requiredCapacitanceMicrofarads_def spec_C_def spec_P_def spec_S_def
        spec_theta_def)
  have v: "\<not> float_overflows ((230::real)\<^sup>2)"
    by (rule voltage_squared_ok) simp
  show ?thesis
    unfolding c using calculate_power_accepted [of "4 / 5" 230 5 freq] v
    by (simp add: power2_eq_square sqrt_9_25 r theta_deg_4_5_rounded)
qed

text \<open>
  Claim C7. \<^verbatim>\<open>calculate_power\<close> with 230 V, 5 A, power factor 0.8 and 50 Hz returns
  apparent power 1150.0, active power 920.0, reactive power 690.0, phase angle 36.87
  degrees and a required capacitance greater than 0, namely 23.32 microfarads.
\<close>

theorem scenario_230V_5A:
  "calculate_power 230 5 (4 / 5) 50
     = Inr \<lparr> res_S = 1150, res_P = 920, res_Q = 690, res_theta_deg = 3687 / 100,
             res_pf = 4 / 5, res_required_C = 2332 / 100 \<rparr>
   \<and> (0::real) < 2332 / 100"
proof -
  have "\<bar>spec_requiredCapacitanceMicrofarads 230 5 (4 / 5) 50 * 10 ^ 2 - of_int 2332\<bar> < 1 / 2"
    using capacitance_230_50_bounds by (simp add: abs_if)
  from py_round_eqI [OF this]
  have "py_round (spec_requiredCapacitanceMicrofarads 230 5 (4 / 5) 50) 2 = 2332 / 100"
    by simp
  then show ?thesis
    by (simp add: accepted_230_5)
qed

section \<open>The sign of the required capacitance\<close>







section \<open>The scale factor of the phasor diagram\<close>

text \<open>
  Claim C9. When \<^verbatim>\<open>plot_waveforms\<close> reaches line 59, that is for a frequency other
  than 0 and a power factor in \<open>[-1, 1]\<close>, the division \<^verbatim>\<open>v_len / I_rms\<close> of the scale
  factor raises \<^verbatim>\<open>ZeroDivisionError\<close> when the current is 0, and for every other
  current it is defined and the scale factor is \<open>(V_rms / I_rms) * 0.7\<close>.
\<close>

theorem scale_factor_division:
  assumes "freq \<noteq> 0" "- 1 \<le> pf" "pf \<le> 1"
  shows "(I_rms = 0 \<longrightarrow> plot_waveforms V_rms I_rms pf freq cycles = Inl ZeroDivisionError)
       \<and> (I_rms \<noteq> 0 \<longrightarrow>
            (\<exists>d. plot_waveforms V_rms I_rms pf freq cycles = Inr d
                 \<and> plot_scale_factor d = (V_rms / I_rms) * (7 / 10)))"
  using assms
  by (simp add: plot_waveforms_def py_truediv_def math_acos_def Let_def)

theorem scale_factor_division_witness:
  "(50::real) \<noteq> 0 \<and> - 1 \<le> (4 / 5::real) \<and> (4 / 5::real) \<le> 1
   \<and> plot_waveforms 230 0 (4 / 5) 50 3 = Inl ZeroDivisionError
   \<and> (\<exists>d. plot_waveforms 230 5 (4 / 5) 50 3 = Inr d \<and> plot_scale_factor d = (230 / 5) * (7 / 10))"
  using scale_factor_division [of 50 "4 / 5" 0 230 3]
        scale_factor_division [of 50 "4 / 5" 5 230 3]
  by simp

end
